theory Spec2Isabelle
  imports Complex_Main "HOL-Library.Sublist" "HOL-Library.Char_ord" "HOL-Library.List_Lexorder"
begin

section \<open>Text normalisation (\<open>VisualSecurityEngine._normalize_text\<close>)\<close>

text \<open>
  A Python \<open>str\<close> is modelled as a HOL \<open>string\<close>: a list of characters whose codes are the
  code points below 256. On these code points \<open>str.lower\<close> moves \<open>A\<close>..\<open>Z\<close> and the
  Latin-1 capitals (192..222 except the multiplication sign 215) up by 32 and leaves every
  other character alone.
\<close>

definition lower_char :: "char \<Rightarrow> char" where
  "lower_char c =
     (let n = (of_char c :: nat)
      in if (65 \<le> n \<and> n \<le> 90) \<or> (192 \<le> n \<and> n \<le> 222 \<and> n \<noteq> 215)
         then char_of (n + 32) else c)"

definition lower :: "string \<Rightarrow> string" where
  "lower text = map lower_char text"

text \<open>The character class \<open>[a-z0-9]\<close> of the regular expression.\<close>

definition is_az09 :: "char \<Rightarrow> bool" where
  "is_az09 c =
     (let n = (of_char c :: nat) in (97 \<le> n \<and> n \<le> 122) \<or> (48 \<le> n \<and> n \<le> 57))"

text \<open>
  \<open>re.sub(r"[^a-z0-9]+", " ", lowered)\<close>: every maximal run of characters outside the class
  is replaced by one space.
\<close>

function re_sub_non_az09 :: "string \<Rightarrow> string" where
  "re_sub_non_az09 [] = []"
| "re_sub_non_az09 (c # cs) =
     (if is_az09 c then c # re_sub_non_az09 cs
      else CHR '' '' # re_sub_non_az09 (dropWhile (\<lambda>d. \<not> is_az09 d) cs))"
  by pat_completeness auto
termination
  by (relation "measure length") (auto simp: length_dropWhile_le less_Suc_eq_le)

text \<open>
  \<open>str.isspace\<close> on the code points below 256, and \<open>str.split()\<close> without arguments:
  the maximal runs of non-whitespace characters, in order, none of them empty.
\<close>

definition py_isspace :: "char \<Rightarrow> bool" where
  "py_isspace c =
     (let n = (of_char c :: nat)
      in (9 \<le> n \<and> n \<le> 13) \<or> (28 \<le> n \<and> n \<le> 32) \<or> n = 133 \<or> n = 160)"

function split_ws :: "string \<Rightarrow> string list" where
  "split_ws s =
     (case dropWhile py_isspace s of
        [] \<Rightarrow> []
      | c # cs \<Rightarrow>
          (c # takeWhile (\<lambda>d. \<not> py_isspace d) cs)
            # split_ws (dropWhile (\<lambda>d. \<not> py_isspace d) cs))"
  by pat_completeness auto
termination
proof (relation "measure length")
  fix s :: string and c cs
  assume "dropWhile py_isspace s = c # cs"
  then have "length (c # cs) \<le> length s"
    by (metis length_dropWhile_le)
  moreover have "length (dropWhile (\<lambda>d. \<not> py_isspace d) cs) \<le> length cs"
    by (rule length_dropWhile_le)
  ultimately show "(dropWhile (\<lambda>d. \<not> py_isspace d) cs, s) \<in> measure length"
    by simp
qed simp

text \<open>\<open>sep.join(items)\<close> for a list of strings.\<close>

fun py_join :: "string \<Rightarrow> string list \<Rightarrow> string" where
  "py_join sep [] = []"
| "py_join sep [t] = t"
| "py_join sep (t # u # ts) = t @ sep @ py_join sep (u # ts)"

text \<open>
  The inner function \<open>merge_single_letter_runs\<close>. The loop over \<open>items\<close> carries the two
  local lists \<open>merged\<close> and \<open>run\<close>.
\<close>

fun merge_loop :: "string list \<Rightarrow> string list \<Rightarrow> string list \<Rightarrow> string list" where
  "merge_loop [] merged run = (if run \<noteq> [] then merged @ [py_join [] run] else merged)"
| "merge_loop (token # items) merged run =
     (if length token = 1 then merge_loop items merged (run @ [token])
      else merge_loop items
             ((if run \<noteq> [] then merged @ [py_join [] run] else merged) @ [token]) [])"

definition merge_single_letter_runs :: "string list \<Rightarrow> string list" where
  "merge_single_letter_runs items = merge_loop items [] []"

definition normalize_text :: "string \<Rightarrow> string" where
  "normalize_text text =
     (let lowered = lower text;
          cleaned = re_sub_non_az09 lowered;
          tokens = split_ws cleaned;
          merged_tokens = merge_single_letter_runs tokens
      in py_join '' '' merged_tokens)"

section \<open>Python values, errors and numbers\<close>

text \<open>
  The OCR result is dynamically typed (\<open>List[Any]\<close>). Its values are modelled by the
  nested lists, tuples, strings, numbers and \<open>None\<close> that the decoder inspects.
\<close>

datatype pyval =
    PNone
  | PBool bool
  | PInt int
  | PFloat real
  | PStr string
  | PList "pyval list"
  | PTuple "pyval list"

text \<open>
  The exceptions of the model: the three built-in ones the engine's own code can raise, and
  any exception raised inside a library call (PIL, PaddleOCR, the embedding model), kept
  with its name.
\<close>

datatype error =
    TypeError
  | OverflowError
  | ValueError
  | LibraryError string

text \<open>
  A Python float is modelled by the real number it stands for; infinities and NaN are
  outside the model. The mean of the confidences and the arithmetic of the risk formula
  are taken exact, without the rounding error of the doubles. The similarity of the two
  embeddings is not recomputed: it is the number the library call \<open>np.dot\<close> returned,
  and the constant it is compared with is the double that the literal \<open>0.18\<close> denotes.
\<close>

text \<open>Truth value of an object (\<open>if not x\<close>).\<close>

fun py_truthy :: "pyval \<Rightarrow> bool" where
  "py_truthy PNone = False"
| "py_truthy (PBool b) = b"
| "py_truthy (PInt i) = (i \<noteq> 0)"
| "py_truthy (PFloat x) = (x \<noteq> 0)"
| "py_truthy (PStr s) = (s \<noteq> [])"
| "py_truthy (PList xs) = (xs \<noteq> [])"
| "py_truthy (PTuple xs) = (xs \<noteq> [])"

text \<open>
  The items a \<open>for\<close> loop visits: the elements of a list or tuple, the one-character
  strings of a string, and \<open>TypeError\<close> for an object that is not iterable.
\<close>

fun py_iter :: "pyval \<Rightarrow> error + pyval list" where
  "py_iter (PList xs) = Inr xs"
| "py_iter (PTuple xs) = Inr xs"
| "py_iter (PStr s) = Inr (map (\<lambda>c. PStr [c]) s)"
| "py_iter PNone = Inl TypeError"
| "py_iter (PBool b) = Inl TypeError"
| "py_iter (PInt i) = Inl TypeError"
| "py_iter (PFloat x) = Inl TypeError"

text \<open>\<open>isinstance(v, (list, tuple))\<close>, giving the elements when it holds.\<close>

fun seq_items :: "pyval \<Rightarrow> pyval list option" where
  "seq_items (PList xs) = Some xs"
| "seq_items (PTuple xs) = Some xs"
| "seq_items PNone = None"
| "seq_items (PBool b) = None"
| "seq_items (PInt i) = None"
| "seq_items (PFloat x) = None"
| "seq_items (PStr s) = None"

text \<open>
  \<open>round(x, ndigits)\<close> on a float: the nearest multiple of \<open>10 ^ -ndigits\<close>, a tie going
  to the even multiple.
\<close>

definition round_half_even :: "real \<Rightarrow> int" where
  "round_half_even x =
     (let f = \<lfloor>x\<rfloor>; d = x - of_int f
      in if d < 1 / 2 then f else if 1 / 2 < d then f + 1 else if even f then f else f + 1)"

definition py_round :: "real \<Rightarrow> nat \<Rightarrow> real" where
  "py_round x ndigits = of_int (round_half_even (x * 10 ^ ndigits)) / 10 ^ ndigits"

text \<open>
  \<open>float(i)\<close> on an integer: the nearest double, which keeps the 53 leading bits of \<open>i\<close>
  (a tie going to the even one), and \<open>OverflowError\<close> when that is \<open>2 ^ 1024\<close> or beyond.
  \<open>bit_length\<close> is \<open>int.bit_length\<close> on the magnitude.
\<close>

function bit_length :: "int \<Rightarrow> nat" where
  "bit_length i = (if i \<le> 0 then 0 else Suc (bit_length (i div 2)))"
  by pat_completeness auto
termination
  by (relation "measure nat") auto

declare bit_length.simps [simp del]

definition float_of_int :: "int \<Rightarrow> error + real" where
  "float_of_int i =
     (let e = bit_length \<bar>i\<bar> - 53;
          x = (of_int (round_half_even (of_int i / 2 ^ e)) :: real) * 2 ^ e
      in if \<bar>x\<bar> < 2 ^ 1024 then Inr x else Inl OverflowError)"

text \<open>
  \<open>float(v)\<close> guarded by \<open>isinstance(v, (float, int))\<close>: \<open>None\<close> when the guard fails.
  \<open>bool\<close> is a subclass of \<open>int\<close>.
\<close>

fun number_to_float :: "pyval \<Rightarrow> (error + real) option" where
  "number_to_float (PFloat x) = Some (Inr x)"
| "number_to_float (PInt i) = Some (float_of_int i)"
| "number_to_float (PBool b) = Some (Inr (if b then 1 else 0))"
| "number_to_float PNone = None"
| "number_to_float (PStr s) = None"
| "number_to_float (PList xs) = None"
| "number_to_float (PTuple xs) = None"

text \<open>
  \<open>str(v)\<close>: a string is returned as it is; the printed form of any other value is the
  interpreter's, taken as the parameter \<open>str_repr\<close>. Printing can raise (an integer of
  more digits than the interpreter converts, a value nested too deeply), so the parameter
  returns an error or a string.
\<close>

fun py_str :: "(pyval \<Rightarrow> error + string) \<Rightarrow> pyval \<Rightarrow> error + string" where
  "py_str str_repr (PStr s) = Inr s"
| "py_str str_repr v = str_repr v"

text \<open>\<open>np.mean\<close> of a non-empty list.\<close>

definition np_mean :: "real list \<Rightarrow> real" where
  "np_mean xs = sum_list xs / of_nat (length xs)"

text \<open>\<open>phrase in text\<close>: the phrase occurs as a contiguous substring.\<close>

fun str_contains :: "string \<Rightarrow> string \<Rightarrow> bool" where
  "str_contains phrase [] = (phrase = [])"
| "str_contains phrase (c # cs) = (prefix phrase (c # cs) \<or> str_contains phrase cs)"

section \<open>The OCR result decoder (\<open>VisualSecurityEngine._extract_ocr_text\<close>)\<close>

text \<open>
  The tests on one truthy \<open>line\<close> that set the locals \<open>text\<close> and \<open>score\<close>; both start
  as \<open>None\<close>. Two statements can raise: \<open>str(meta[0])\<close> and, after it, \<open>float(meta[1])\<close>.
\<close>

definition line_text_score ::
  "(pyval \<Rightarrow> error + string) \<Rightarrow> pyval \<Rightarrow> error + (string option \<times> real option)" where
  "line_text_score str_repr line =
     (case seq_items line of
        Some items \<Rightarrow>
          if 2 \<le> length items then
            (let meta = items ! 1
             in case seq_items meta of
                  Some ms \<Rightarrow>
                    (case (if ms \<noteq> [] then
                             (case py_str str_repr (ms ! 0) of
                                Inl e \<Rightarrow> Inl e
                              | Inr s \<Rightarrow> Inr (Some s))
                           else Inr None) of
                       Inl e \<Rightarrow> Inl e
                     | Inr text \<Rightarrow>
                         if 1 < length ms then
                           (case number_to_float (ms ! 1) of
                              Some (Inl e) \<Rightarrow> Inl e
                            | Some (Inr x) \<Rightarrow> Inr (text, Some x)
                            | None \<Rightarrow> Inr (text, None))
                         else Inr (text, None))
                | None \<Rightarrow>
                    (case meta of
                       PStr s \<Rightarrow> Inr (Some s, None)
                     | _ \<Rightarrow> Inr (None, None)))
          else Inr (None, None)
      | None \<Rightarrow>
          (case line of
             PStr s \<Rightarrow> Inr (Some s, None)
           | _ \<Rightarrow> Inr (None, None)))"

text \<open>
  One pass of the inner loop body over \<open>line\<close>, on the two result lists \<open>fragments\<close> and
  \<open>scored\<close>.
\<close>

definition extract_line ::
  "(pyval \<Rightarrow> error + string) \<Rightarrow> pyval \<Rightarrow> string list \<times> (string \<times> real) list \<Rightarrow>
   error + (string list \<times> (string \<times> real) list)" where
  "extract_line str_repr line acc =
     (case acc of (fragments, scored) \<Rightarrow>
        if \<not> py_truthy line then Inr (fragments, scored)
        else
          (case line_text_score str_repr line of
             Inl e \<Rightarrow> Inl e
           | Inr (text, score) \<Rightarrow>
               (case text of
                  None \<Rightarrow> Inr (fragments, scored)
                | Some t \<Rightarrow>
                    if t \<noteq> [] then
                      Inr (fragments @ [t],
                           (case score of None \<Rightarrow> scored | Some x \<Rightarrow> scored @ [(t, x)]))
                    else Inr (fragments, scored))))"

fun extract_lines ::
  "(pyval \<Rightarrow> error + string) \<Rightarrow> pyval list \<Rightarrow> string list \<times> (string \<times> real) list \<Rightarrow>
   error + (string list \<times> (string \<times> real) list)" where
  "extract_lines str_repr [] acc = Inr acc"
| "extract_lines str_repr (line # lines) acc =
     (case extract_line str_repr line acc of
        Inl e \<Rightarrow> Inl e
      | Inr acc' \<Rightarrow> extract_lines str_repr lines acc')"

fun extract_blocks ::
  "(pyval \<Rightarrow> error + string) \<Rightarrow> pyval list \<Rightarrow> string list \<times> (string \<times> real) list \<Rightarrow>
   error + (string list \<times> (string \<times> real) list)" where
  "extract_blocks str_repr [] acc = Inr acc"
| "extract_blocks str_repr (block # blocks) acc =
     (if \<not> py_truthy block then extract_blocks str_repr blocks acc
      else
        (case py_iter block of
           Inl e \<Rightarrow> Inl e
         | Inr lines \<Rightarrow>
             (case extract_lines str_repr lines acc of
                Inl e \<Rightarrow> Inl e
              | Inr acc' \<Rightarrow> extract_blocks str_repr blocks acc')))"

definition extract_ocr_text ::
  "(pyval \<Rightarrow> error + string) \<Rightarrow> pyval \<Rightarrow> error + (string \<times> (string \<times> real) list)" where
  "extract_ocr_text str_repr ocr_result =
     (case (if py_truthy ocr_result then py_iter ocr_result else Inr []) of
        Inl e \<Rightarrow> Inl e
      | Inr blocks \<Rightarrow>
          (case extract_blocks str_repr blocks ([], []) of
             Inl e \<Rightarrow> Inl e
           | Inr (fragments, scored) \<Rightarrow> Inr (py_join '' '' fragments, scored)))"

section \<open>The engine and its two detection operations\<close>

text \<open>
  The image is a path or raw bytes. The libraries and models the engine calls are
  parameters, each returning an error where the call raises: PIL's
  \<open>Image.open(...).convert("RGB")\<close>, the channel reversal \<open>np.array(pil)[:, :, ::-1]\<close>,
  \<open>PaddleOCR.ocr\<close>, the two uses of \<open>SentenceTransformer.encode\<close> (each giving the single
  embedding row), \<open>np.dot\<close> on two embedding rows (with the floating-point result it
  returns, or the error it raises), and the interpreter's \<open>str\<close> on values that are not
  strings.
\<close>

datatype image = ImagePath string | ImageBytes "nat list"

record ('arr, 'pil) env =
  pil_open_rgb :: "image \<Rightarrow> error + 'pil"
  bgr_array :: "'pil \<Rightarrow> 'arr"
  paddle_ocr :: "string + 'arr \<Rightarrow> error + pyval"
  clip_encode_image :: "'pil \<Rightarrow> error + real list"
  clip_encode_text :: "string \<Rightarrow> error + real list"
  np_dot :: "real list \<Rightarrow> real list \<Rightarrow> error + real"
  builtin_str :: "pyval \<Rightarrow> error + string"

record injection_verdict =
  is_threat :: bool
  risk_score :: real
  reason :: string

record cross_modal_verdict =
  is_mismatch :: bool
  consistency_score :: real

definition THREAT_DICTIONARY :: "string list" where
  "THREAT_DICTIONARY =
     [''ignore previous'',
      ''system override'',
      ''transfer funds'',
      ''bypass safety'',
      ''disable guardrails'',
      ''override policy'',
      ''reveal secrets'']"

definition load_image_for_ocr :: "('arr, 'pil) env \<Rightarrow> image \<Rightarrow> error + (string + 'arr)" where
  "load_image_for_ocr env img =
     (case img of
        ImagePath path \<Rightarrow> Inr (Inl path)
      | ImageBytes bytes \<Rightarrow>
          (case pil_open_rgb env (ImageBytes bytes) of
             Inl e \<Rightarrow> Inl e
           | Inr pil_image \<Rightarrow> Inr (Inr (bgr_array env pil_image))))"

definition load_image_for_clip :: "('arr, 'pil) env \<Rightarrow> image \<Rightarrow> error + 'pil" where
  "load_image_for_clip env img =
     (case img of
        ImagePath path \<Rightarrow> pil_open_rgb env (ImagePath path)
      | ImageBytes bytes \<Rightarrow> pil_open_rgb env (ImageBytes bytes))"

text \<open>
  \<open>detect_injection\<close> in two parts: \<open>ocr_text\<close> is its first three statements (load the
  image, run the OCR, decode the result), \<open>assess_text\<close> is the rest, from the
  normalisation to the verdict.
\<close>

definition ocr_text ::
  "('arr, 'pil) env \<Rightarrow> image \<Rightarrow> error + (string \<times> (string \<times> real) list)" where
  "ocr_text env img =
     (case load_image_for_ocr env img of
        Inl e \<Rightarrow> Inl e
      | Inr ocr_input \<Rightarrow>
          (case paddle_ocr env ocr_input of
             Inl e \<Rightarrow> Inl e
           | Inr ocr_result \<Rightarrow> extract_ocr_text (builtin_str env) ocr_result))"

definition matched_phrases :: "string \<Rightarrow> string list" where
  "matched_phrases normalized =
     filter (\<lambda>phrase. str_contains phrase normalized) THREAT_DICTIONARY"

definition avg_conf :: "(string \<times> real) list \<Rightarrow> real" where
  "avg_conf scored = (if scored \<noteq> [] then np_mean (map snd scored) else 0.6)"

definition assess_text :: "string \<Rightarrow> (string \<times> real) list \<Rightarrow> injection_verdict" where
  "assess_text raw_text scored =
     (let normalized = normalize_text raw_text;
          matched = matched_phrases normalized
      in if normalized = [] then
           \<lparr>is_threat = False, risk_score = 0,
            reason = ''No readable text detected in image.''\<rparr>
         else if matched \<noteq> [] then
           (let risk = min 1 (0.6 + 0.1 * of_nat (length matched) + 0.2 * avg_conf scored)
            in \<lparr>is_threat = True, risk_score = py_round risk 3,
                reason = ''Matched threat phrases: ''
                  @ py_join '', '' (sort (remdups matched)) @ ''.''\<rparr>)
         else
           \<lparr>is_threat = False, risk_score = 0,
            reason = ''No threat phrases detected.''\<rparr>)"

definition detect_injection :: "('arr, 'pil) env \<Rightarrow> image \<Rightarrow> error + injection_verdict" where
  "detect_injection env img =
     (case ocr_text env img of
        Inl e \<Rightarrow> Inl e
      | Inr (raw_text, scored) \<Rightarrow> Inr (assess_text raw_text scored))"

text \<open>
  The double that the literal \<open>0.18\<close> denotes: \<open>(0.18).as_integer_ratio()\<close> is
  \<open>(3242591731706757, 2 ** 54)\<close>.
\<close>

definition mismatch_threshold :: real where
  "mismatch_threshold = 3242591731706757 / 2 ^ 54"

text \<open>
  \<open>check_cross_modal\<close> returns, beside its result, the calls it made to the image loader
  and to the embedding model, in order.
\<close>

datatype call = LoadImageForClip | EncodeImage | EncodeText

definition check_cross_modal ::
  "('arr, 'pil) env \<Rightarrow> image \<Rightarrow> string \<Rightarrow> call list \<times> (error + cross_modal_verdict)" where
  "check_cross_modal env img audio_transcript =
     (if audio_transcript = [] then
        ([], Inr \<lparr>is_mismatch = True, consistency_score = 0\<rparr>)
      else
        (case load_image_for_clip env img of
           Inl e \<Rightarrow> ([LoadImageForClip], Inl e)
         | Inr pil_image \<Rightarrow>
             (case clip_encode_image env pil_image of
                Inl e \<Rightarrow> ([LoadImageForClip, EncodeImage], Inl e)
              | Inr image_emb \<Rightarrow>
                  (case clip_encode_text env audio_transcript of
                     Inl e \<Rightarrow> ([LoadImageForClip, EncodeImage, EncodeText], Inl e)
                   | Inr text_emb \<Rightarrow>
                       ([LoadImageForClip, EncodeImage, EncodeText],
                        (case np_dot env image_emb text_emb of
                           Inl e \<Rightarrow> Inl e
                         | Inr similarity \<Rightarrow>
                             Inr \<lparr>is_mismatch = similarity < mismatch_threshold,
                                  consistency_score = py_round similarity 4\<rparr>))))))"

section \<open>A stub engine for concrete runs\<close>

text \<open>
  A test double: the image always loads, the OCR returns the given result and the embedding
  model the two given vectors; the dot product is computed without rounding error, and
  raises \<open>ValueError\<close> on vectors of different lengths as \<open>np.dot\<close> does.
\<close>

definition exact_dot :: "real list \<Rightarrow> real list \<Rightarrow> error + real" where
  "exact_dot xs ys =
     (if length xs = length ys then Inr (sum_list (map2 (*) xs ys)) else Inl ValueError)"

definition stub_env :: "pyval \<Rightarrow> real list \<Rightarrow> real list \<Rightarrow> (unit, unit) env" where
  "stub_env ocr_result image_emb text_emb =
     \<lparr>pil_open_rgb = (\<lambda>_. Inr ()),
      bgr_array = (\<lambda>_. ()),
      paddle_ocr = (\<lambda>_. Inr ocr_result),
      clip_encode_image = (\<lambda>_. Inr image_emb),
      clip_encode_text = (\<lambda>_. Inr text_emb),
      np_dot = exact_dot,
      builtin_str = (\<lambda>_. Inr ''?'')\<rparr>"

text \<open>A detected line in the shape \<open>[geometry, (text, score)]\<close>, the geometry left empty.\<close>

definition ocr_line :: "string \<Rightarrow> real \<Rightarrow> pyval" where
  "ocr_line text score = PList [PList [], PTuple [PStr text, PFloat score]]"

section \<open>Vocabulary of the proofs\<close>

text \<open>A word is a non-empty string over \<open>[a-z0-9]\<close>.\<close>

definition is_word :: "string \<Rightarrow> bool" where
  "is_word w = (w \<noteq> [] \<and> (\<forall>c \<in> set w. is_az09 c))"

text \<open>No two neighbouring tokens are both one character long.\<close>

fun no_adjacent_singles :: "string list \<Rightarrow> bool" where
  "no_adjacent_singles [] = True"
| "no_adjacent_singles [t] = True"
| "no_adjacent_singles (t # u # ts) =
     (\<not> (length t = 1 \<and> length u = 1) \<and> no_adjacent_singles (u # ts))"

definition after_single :: "string list \<Rightarrow> bool" where
  "after_single ts = (no_adjacent_singles ts \<and> (ts = [] \<or> length (hd ts) \<noteq> 1))"

section \<open>Facts about the normaliser\<close>

declare split_ws.simps [simp del]

lemma py_join_empty_sep [simp]: "py_join [] ts = concat ts"
  by (induction ts rule: induct_list012) simp_all

lemma merge_loop_acc: "merge_loop items merged run = merged @ merge_loop items [] run"
proof (induction items arbitrary: merged run)
  case Nil
  show ?case by simp
next
  case (Cons token items)
  show ?case
  proof (cases "length token = 1")
    case True
    then show ?thesis using Cons.IH [of merged "run @ [token]"] by simp
  next
    case False
    then show ?thesis
      using Cons.IH [of "(if run \<noteq> [] then merged @ [concat run] else merged) @ [token]" "[]"]
            Cons.IH [of "(if run \<noteq> [] then [concat run] else []) @ [token]" "[]"]
      by (cases "run = []") simp_all
  qed
qed

lemma merge_loop_singles:
  "\<forall>s \<in> set singles. length s = 1 \<Longrightarrow>
   merge_loop (singles @ items) [] run = merge_loop items [] (run @ singles)"
  by (induction singles arbitrary: run) auto

lemma az09_not_space: "is_az09 c \<Longrightarrow> \<not> py_isspace c"
  by (auto simp: is_az09_def py_isspace_def Let_def)

lemma lower_char_az09: "is_az09 c \<Longrightarrow> lower_char c = c"
  by (auto simp: is_az09_def lower_char_def Let_def)

lemma space_facts:
  "\<not> is_az09 (CHR '' '')" "py_isspace (CHR '' '')" "lower_char (CHR '' '') = CHR '' ''"
  by (simp_all add: is_az09_def py_isspace_def lower_char_def)

lemma re_sub_chars: "c \<in> set (re_sub_non_az09 s) \<Longrightarrow> is_az09 c \<or> c = CHR '' ''"
  by (induction s rule: re_sub_non_az09.induct) (auto split: if_splits)

lemma split_ws_tokens:
  "t \<in> set (split_ws s) \<Longrightarrow> t \<noteq> [] \<and> (\<forall>c \<in> set t. c \<in> set s \<and> \<not> py_isspace c)"
proof (induction s arbitrary: t rule: split_ws.induct)
  case (1 s)
  show ?case
  proof (cases "dropWhile py_isspace s")
    case Nil
    with "1.prems" show ?thesis by (simp add: split_ws.simps [of s])
  next
    case (Cons c cs)
    let ?tok = "c # takeWhile (\<lambda>d. \<not> py_isspace d) cs"
    let ?rest = "dropWhile (\<lambda>d. \<not> py_isspace d) cs"
    from Cons have sub: "set (c # cs) \<subseteq> set s"
      by (metis set_dropWhileD subsetI)
    from Cons have c: "\<not> py_isspace c"
      by (metis hd_dropWhile list.sel(1) list.distinct(1))
    from "1.prems" Cons have "t = ?tok \<or> t \<in> set (split_ws ?rest)"
      by (simp add: split_ws.simps [of s])
    then show ?thesis
    proof
      assume t: "t = ?tok"
      have "\<forall>d \<in> set (takeWhile (\<lambda>d. \<not> py_isspace d) cs). d \<in> set cs \<and> \<not> py_isspace d"
        by (auto dest: set_takeWhileD)
      with t c sub show ?thesis by auto
    next
      assume "t \<in> set (split_ws ?rest)"
      from "1.IH" [OF Cons this] have "t \<noteq> []" and
        "\<forall>d \<in> set t. d \<in> set ?rest \<and> \<not> py_isspace d" by auto
      moreover have "set ?rest \<subseteq> set cs" by (meson set_dropWhileD subsetI)
      ultimately show ?thesis using sub by auto
    qed
  qed
qed

lemma tokens_are_words:
  assumes "t \<in> set (split_ws (re_sub_non_az09 s))"
  shows "is_word t"
proof -
  from split_ws_tokens [OF assms] have ne: "t \<noteq> []"
    and cs: "\<forall>c \<in> set t. c \<in> set (re_sub_non_az09 s) \<and> \<not> py_isspace c" by auto
  have "is_az09 c" if "c \<in> set t" for c
    using cs that re_sub_chars [of c s] space_facts(2) by auto
  with ne show ?thesis by (simp add: is_word_def)
qed

lemma merge_loop_words:
  "\<forall>t \<in> set items. is_word t \<Longrightarrow> \<forall>t \<in> set merged. is_word t \<Longrightarrow>
   \<forall>t \<in> set run. is_word t \<Longrightarrow> \<forall>t \<in> set (merge_loop items merged run). is_word t"
proof (induction items arbitrary: merged run)
  case Nil
  then show ?case by (cases run) (auto simp: is_word_def)
next
  case (Cons token items)
  have fl: "\<forall>t \<in> set ((if run \<noteq> [] then merged @ [py_join [] run] else merged) @ [token]).
      is_word t"
    using Cons.prems by (cases run) (auto simp: is_word_def)
  show ?case
  proof (cases "length token = 1")
    case True
    then show ?thesis using Cons.IH [of merged "run @ [token]"] Cons.prems by simp
  next
    case False
    then show ?thesis using Cons.IH [OF _ fl, of "[]"] Cons.prems by simp
  qed
qed

lemma merge_words:
  "\<forall>t \<in> set ts. is_word t \<Longrightarrow> \<forall>t \<in> set (merge_single_letter_runs ts). is_word t"
  unfolding merge_single_letter_runs_def using merge_loop_words [of ts "[]" "[]"] by simp

lemma join_chars:
  "\<forall>t \<in> set ts. is_word t \<Longrightarrow> c \<in> set (py_join '' '' ts) \<Longrightarrow> is_az09 c \<or> c = CHR '' ''"
  by (induction ts rule: induct_list012) (auto simp: is_word_def)

lemma lower_join: "\<forall>t \<in> set ts. is_word t \<Longrightarrow> lower (py_join '' '' ts) = py_join '' '' ts"
  unfolding lower_def
  by (rule map_idI) (use join_chars lower_char_az09 space_facts(3) in blast)

lemma join_head:
  "is_word u \<Longrightarrow> \<exists>c r. py_join '' '' (u # ts) = c # r \<and> is_az09 c"
  by (cases u; cases ts) (auto simp: is_word_def)

lemma re_sub_word_append:
  "\<forall>c \<in> set w. is_az09 c \<Longrightarrow> re_sub_non_az09 (w @ s) = w @ re_sub_non_az09 s"
  by (induction w) auto

lemma re_sub_join:
  "\<forall>t \<in> set ts. is_word t \<Longrightarrow> re_sub_non_az09 (py_join '' '' ts) = py_join '' '' ts"
proof (induction ts rule: induct_list012)
  case 1
  show ?case by simp
next
  case (2 t)
  then show ?case using re_sub_word_append [of t "[]"] by (simp add: is_word_def)
next
  case (3 t u ts)
  from "3.prems" obtain c r where cr: "py_join '' '' (u # ts) = c # r" "is_az09 c"
    using join_head [of u ts] by auto
  have "re_sub_non_az09 (CHR '' '' # py_join '' '' (u # ts)) = CHR '' '' # py_join '' '' (u # ts)"
    using "3.IH"(2) "3.prems" cr space_facts(1) by simp
  then show ?case
    using "3.prems" re_sub_word_append [of t "CHR '' '' # py_join '' '' (u # ts)"]
    by (simp add: is_word_def)
qed

lemma split_ws_space: "split_ws (CHR '' '' # s) = split_ws s"
  using split_ws.simps [of "CHR '' '' # s"] split_ws.simps [of s] space_facts(2) by simp

lemma split_ws_word:
  assumes "is_word t" "s = [] \<or> py_isspace (hd s)"
  shows "split_ws (t @ s) = t # split_ws s"
proof -
  from assms(1) obtain c cs where t: "t = c # cs" by (cases t) (auto simp: is_word_def)
  with assms(1) have c: "\<not> py_isspace c" and cs: "\<forall>d \<in> set cs. \<not> py_isspace d"
    by (auto simp: is_word_def az09_not_space)
  have tw: "takeWhile (\<lambda>d. \<not> py_isspace d) (cs @ s) = cs"
    using cs assms(2) by (cases s) (simp_all add: takeWhile_append2)
  have dw: "dropWhile (\<lambda>d. \<not> py_isspace d) (cs @ s) = s"
    using cs assms(2) by (cases s) (simp_all add: dropWhile_append2)
  show ?thesis using split_ws.simps [of "t @ s"] t c tw dw by simp
qed

lemma split_ws_Nil: "split_ws [] = []"
  by (simp add: split_ws.simps [of "[]"])

lemma split_ws_join: "\<forall>t \<in> set ts. is_word t \<Longrightarrow> split_ws (py_join '' '' ts) = ts"
proof (induction ts rule: induct_list012)
  case 1
  show ?case by (simp add: split_ws_Nil)
next
  case (2 t)
  then show ?case using split_ws_word [of t "[]"] by (simp add: split_ws_Nil)
next
  case (3 t u ts)
  then show ?case
    using split_ws_word [of t "CHR '' '' # py_join '' '' (u # ts)"] space_facts(2)
    by (simp add: split_ws_space)
qed

lemma after_single_Cons: "after_single ts \<Longrightarrow> no_adjacent_singles (c # ts)"
  by (cases ts) (auto simp: after_single_def)

lemma no_adjacent_multi:
  "length t \<noteq> 1 \<Longrightarrow> no_adjacent_singles ts \<Longrightarrow> no_adjacent_singles (t # ts)"
  by (cases ts) auto

lemma merge_loop_shape:
  "(run = [] \<longrightarrow> no_adjacent_singles (merge_loop items [] run)) \<and>
   (run \<noteq> [] \<longrightarrow> (\<exists>c rest. merge_loop items [] run = c # rest \<and> after_single rest))"
proof (induction items arbitrary: run)
  case Nil
  show ?case by (simp add: after_single_def)
next
  case (Cons token items)
  show ?case
  proof (cases "length token = 1")
    case True
    from Cons.IH [of "run @ [token]"] obtain c rest
      where "merge_loop items [] (run @ [token]) = c # rest" "after_single rest" by auto
    with True show ?thesis by (auto simp: after_single_Cons)
  next
    case False
    from Cons.IH [of "[]"] have na: "no_adjacent_singles (merge_loop items [] [])" by simp
    have eq: "merge_loop (token # items) [] run =
        (if run \<noteq> [] then [concat run] else []) @ token # merge_loop items [] []"
      using False merge_loop_acc [of items "(if run \<noteq> [] then [concat run] else []) @ [token]" "[]"]
      by (cases "run = []") simp_all
    have "after_single (token # merge_loop items [] [])"
      using False na by (simp add: after_single_def no_adjacent_multi)
    with eq False na show ?thesis by (auto simp: no_adjacent_multi)
  qed
qed

lemma merge_loop_fixed:
  "no_adjacent_singles ts \<Longrightarrow> merge_loop ts [] [] = ts"
proof (induction ts rule: no_adjacent_singles.induct)
  case 1
  show ?case by simp
next
  case (2 t)
  show ?case by simp
next
  case (3 t u ts)
  from "3.prems" have IH: "merge_loop (u # ts) [] [] = u # ts" using "3.IH" by simp
  show ?case
  proof (cases "length t = 1")
    case True
    with "3.prems" have u: "length u \<noteq> 1" by simp
    have "merge_loop ts [t, u] [] = [t, u] @ merge_loop ts [] []" by (rule merge_loop_acc)
    moreover have "merge_loop ts [u] [] = [u] @ merge_loop ts [] []" by (rule merge_loop_acc)
    ultimately show ?thesis using True u IH by simp
  next
    case False
    have "merge_loop (u # ts) [t] [] = [t] @ merge_loop (u # ts) [] []" by (rule merge_loop_acc)
    with False IH show ?thesis by simp
  qed
qed

lemma merge_idem:
  "merge_single_letter_runs (merge_single_letter_runs ts) = merge_single_letter_runs ts"
  unfolding merge_single_letter_runs_def
  using merge_loop_shape [of "[]" ts] by (simp add: merge_loop_fixed)

section \<open>Claims about the normaliser\<close>

text \<open>
  C7. Merging single-character runs: a maximal run \<open>singles\<close> of one-character tokens
  becomes the one token \<open>concat singles\<close>; a token \<open>t\<close> of any other length passes through
  unchanged and flushes the run collected before it; a run that reaches the end of the
  input is flushed there. The raw text \<open>i g n o r e previous\<close> normalises to
  \<open>ignore previous\<close>.
\<close>

theorem merge_single_letter_runs_spec:
  assumes "\<forall>s \<in> set singles. length s = 1" and "length t \<noteq> 1"
  shows "merge_single_letter_runs (singles @ t # rest) =
           (if singles \<noteq> [] then [concat singles] else []) @ t # merge_single_letter_runs rest
       \<and> merge_single_letter_runs singles = (if singles \<noteq> [] then [concat singles] else [])
       \<and> normalize_text ''i g n o r e previous'' = ''ignore previous''"
proof (intro conjI)
  show "merge_single_letter_runs (singles @ t # rest) =
      (if singles \<noteq> [] then [concat singles] else []) @ t # merge_single_letter_runs rest"
    unfolding merge_single_letter_runs_def
    using assms merge_loop_singles [of singles "t # rest" "[]"]
      merge_loop_acc [of rest "(if singles \<noteq> [] then [concat singles] else []) @ [t]" "[]"]
    by (cases "singles = []") simp_all
  show "merge_single_letter_runs singles = (if singles \<noteq> [] then [concat singles] else [])"
    unfolding merge_single_letter_runs_def
    using assms(1) merge_loop_singles [of singles "[]" "[]"] by simp
  show "normalize_text ''i g n o r e previous'' = ''ignore previous''"
    by code_simp
qed

theorem merge_single_letter_runs_spec_witness:
  "length ''previous'' \<noteq> 1
   \<and> merge_single_letter_runs [''i'', ''g'', ''n'', ''o'', ''r'', ''e'', ''previous'', ''x'']
       = [''ignore'', ''previous'', ''x'']"
  using merge_single_letter_runs_spec
          [of "[''i'', ''g'', ''n'', ''o'', ''r'', ''e'']" "''previous''" "[''x'']"]
        merge_single_letter_runs_spec [of "[''x'']" "''previous''" "[]"]
  by simp

text \<open>
  C8. Normalisation is idempotent: normalising an already normalised text returns it
  unchanged.
\<close>

theorem normalize_text_idempotent: "normalize_text (normalize_text x) = normalize_text x"
proof -
  let ?ts = "merge_single_letter_runs (split_ws (re_sub_non_az09 (lower x)))"
  have w: "\<forall>t \<in> set ?ts. is_word t"
    by (rule merge_words) (simp add: tokens_are_words)
  have "split_ws (re_sub_non_az09 (lower (py_join '' '' ?ts))) = ?ts"
    by (simp add: lower_join [OF w] re_sub_join [OF w] split_ws_join [OF w])
  then show ?thesis by (simp add: normalize_text_def merge_idem)
qed

section \<open>Facts about rounding, matching and scoring\<close>

lemma round_half_even_mono: "x \<le> y \<Longrightarrow> round_half_even x \<le> round_half_even y"
proof -
  assume xy: "x \<le> y"
  then have fl: "\<lfloor>x\<rfloor> \<le> \<lfloor>y\<rfloor>" by (rule floor_mono)
  show ?thesis
  proof (cases "\<lfloor>x\<rfloor> = \<lfloor>y\<rfloor>")
    case True
    with xy show ?thesis by (auto simp: round_half_even_def Let_def)
  next
    case False
    with fl have "\<lfloor>x\<rfloor> + 1 \<le> \<lfloor>y\<rfloor>" by simp
    moreover have "round_half_even x \<le> \<lfloor>x\<rfloor> + 1" by (simp add: round_half_even_def Let_def)
    moreover have "\<lfloor>y\<rfloor> \<le> round_half_even y" by (simp add: round_half_even_def Let_def)
    ultimately show ?thesis by linarith
  qed
qed


lemma round_half_even_of_int: "round_half_even (of_int k) = k"
  by (simp add: round_half_even_def)

lemma py_round_mono: "x \<le> y \<Longrightarrow> py_round x n \<le> py_round y n"
  unfolding py_round_def
  by (intro divide_right_mono) (simp_all add: round_half_even_mono)

lemma py_round_multiple: "x * 10 ^ n = of_int k \<Longrightarrow> py_round x n = of_int k / 10 ^ n"
  by (simp add: py_round_def round_half_even_of_int)



lemma str_contains_sublist: "str_contains p s = sublist p s"
  by (induction s) (simp_all add: sublist_Cons_right)

lemma matched_set:
  "set (matched_phrases n) = {p \<in> set THREAT_DICTIONARY. sublist p n}"
  by (simp add: matched_phrases_def str_contains_sublist)

lemma matched_distinct: "distinct (matched_phrases n)"
  unfolding matched_phrases_def by (rule distinct_filter) (simp add: THREAT_DICTIONARY_def)

lemma matched_length:
  "length (matched_phrases n) = card {p \<in> set THREAT_DICTIONARY. sublist p n}"
  using distinct_card [OF matched_distinct, of n] by (simp add: matched_set)

lemma matched_nonempty_text: "matched_phrases n \<noteq> [] \<Longrightarrow> n \<noteq> []"
  by (auto simp: matched_phrases_def THREAT_DICTIONARY_def)

lemma detect_injection_ocr:
  "ocr_text env img = Inr (raw_text, scored) \<Longrightarrow>
   detect_injection env img = Inr (assess_text raw_text scored)"
  by (simp add: detect_injection_def)

lemma assess_threat:
  assumes "matched_phrases (normalize_text raw_text) \<noteq> []"
  shows "is_threat (assess_text raw_text scored)"
    and "risk_score (assess_text raw_text scored) =
       py_round (min 1 (0.6 + 0.1 * of_nat (length (matched_phrases (normalize_text raw_text)))
                          + 0.2 * avg_conf scored)) 3"
  using assms matched_nonempty_text [OF assms] by (simp_all add: assess_text_def Let_def)

lemma assess_no_threat:
  assumes "matched_phrases (normalize_text raw_text) = []"
  shows "\<not> is_threat (assess_text raw_text scored)"
    and "risk_score (assess_text raw_text scored) = 0"
  using assms by (simp_all add: assess_text_def Let_def)

lemma np_mean_bounds:
  assumes "xs \<noteq> []" "\<forall>x \<in> set xs. lo \<le> x \<and> x \<le> hi"
  shows "lo \<le> np_mean xs \<and> np_mean xs \<le> hi"
proof -
  have n: "0 < real (length xs)" using assms(1) by simp
  have "sum_list (map (\<lambda>_. lo) xs) \<le> sum_list xs"
    using assms(2) sum_list_mono [of xs "\<lambda>_. lo" "\<lambda>x. x"] by simp
  then have lo: "lo * real (length xs) \<le> sum_list xs"
    by (simp add: sum_list_triv mult.commute)
  have "sum_list xs \<le> sum_list (map (\<lambda>_. hi) xs)"
    using assms(2) sum_list_mono [of xs "\<lambda>x. x" "\<lambda>_. hi"] by simp
  then have hi: "sum_list xs \<le> hi * real (length xs)"
    by (simp add: sum_list_triv mult.commute)
  show ?thesis unfolding np_mean_def using n lo hi
    by (simp add: pos_le_divide_eq pos_divide_le_eq)
qed

lemma avg_conf_nonneg:
  assumes "\<forall>(t, s) \<in> set scored. 0 \<le> s \<and> s \<le> 1"
  shows "0 \<le> avg_conf scored"
proof (cases "scored = []")
  case True
  then show ?thesis by (simp add: avg_conf_def)
next
  case False
  from assms have "\<forall>x \<in> set (map snd scored). 0 \<le> x \<and> x \<le> 1" by auto
  with False have "0 \<le> np_mean (map snd scored)"
    using np_mean_bounds [of "map snd scored" 0 1] by simp
  with False show ?thesis by (simp add: avg_conf_def)
qed

lemma risk_ge:
  assumes "1 \<le> n" "0 \<le> c"
  shows "0.6 \<le> py_round (min 1 (0.6 + 0.1 * real n + 0.2 * c)) 3"
proof -
  have "(0.7::real) \<le> min 1 (0.6 + 0.1 * real n + 0.2 * c)"
    using assms by simp
  then have "py_round 0.7 3 \<le> py_round (min 1 (0.6 + 0.1 * real n + 0.2 * c)) 3"
    by (rule py_round_mono)
  moreover have "py_round 0.7 3 = 0.7" by (simp add: py_round_def round_half_even_def)
  ultimately show ?thesis by simp
qed

lemma risk_mono:
  assumes "n \<le> n'" "c \<le> c'"
  shows "py_round (min 1 (0.6 + 0.1 * real n + 0.2 * c)) 3
       \<le> py_round (min 1 (0.6 + 0.1 * real n' + 0.2 * c')) 3"
  using assms by (intro py_round_mono) (simp add: min_le_iff_disj)

lemma risk_le_1: "py_round (min 1 x) 3 \<le> 1"
proof -
  have "py_round (min 1 x) 3 \<le> py_round 1 3" by (rule py_round_mono) simp
  also have "py_round 1 3 = 1" by (simp add: py_round_def round_half_even_def)
  finally show ?thesis .
qed

lemma assess_le_1: "risk_score (assess_text raw_text scored) \<le> 1"
  by (cases "matched_phrases (normalize_text raw_text) = []")
     (simp_all add: assess_threat(2) assess_no_threat(2) risk_le_1)










section \<open>Claims about injection detection\<close>




text \<open>
  C2. Whenever a dictionary phrase occurs as a contiguous substring of the normalised text
  (plain containment, whatever the token boundaries) and every fragment confidence lies in
  \<open>[0, 1]\<close>, the call reports a threat with \<open>risk_score\<close> at least 0.6.
\<close>

theorem detect_injection_flags_phrase:
  assumes "ocr_text env img = Inr (raw_text, scored)"
    and "phrase \<in> set THREAT_DICTIONARY"
    and "sublist phrase (normalize_text raw_text)"
    and "\<forall>(t, s) \<in> set scored. 0 \<le> s \<and> s \<le> 1"
  shows "\<exists>v. detect_injection env img = Inr v \<and> is_threat v \<and> 0.6 \<le> risk_score v"
proof -
  from assms(2,3) have "phrase \<in> set (matched_phrases (normalize_text raw_text))"
    by (simp add: matched_set)
  then have ne: "matched_phrases (normalize_text raw_text) \<noteq> []" by auto
  then have "1 \<le> length (matched_phrases (normalize_text raw_text))"
    by (simp add: Suc_le_eq)
  then have "0.6 \<le> risk_score (assess_text raw_text scored)"
    unfolding assess_threat(2) [OF ne] using avg_conf_nonneg [OF assms(4)] by (rule risk_ge)
  then show ?thesis
    by (simp add: detect_injection_ocr [OF assms(1)] assess_threat(1) [OF ne])
qed

theorem detect_injection_flags_phrase_witness:
  "sublist ''bypass safety'' (normalize_text ''XBYPASS SAFETYX'')
   \<and> (\<exists>v. detect_injection (stub_env (PList [PList [ocr_line ''XBYPASS SAFETYX'' 0.5]]) [] [])
            (ImageBytes [1, 2, 3]) = Inr v
          \<and> is_threat v \<and> 0.6 \<le> risk_score v)"
proof -
  let ?env = "stub_env (PList [PList [ocr_line ''XBYPASS SAFETYX'' 0.5]]) [] []"
  have o: "ocr_text ?env (ImageBytes [1, 2, 3]) = Inr (''XBYPASS SAFETYX'', [(''XBYPASS SAFETYX'', 0.5)])"
    by code_simp
  have p: "''bypass safety'' \<in> set THREAT_DICTIONARY" by (simp add: THREAT_DICTIONARY_def)
  have n: "normalize_text ''XBYPASS SAFETYX'' = ''x'' @ ''bypass safety'' @ ''x''" by code_simp
  have s: "sublist ''bypass safety'' (normalize_text ''XBYPASS SAFETYX'')"
    unfolding n by (rule sublist_appendI)
  have c: "\<forall>(t, s) \<in> set [(''XBYPASS SAFETYX'', 0.5 :: real)]. 0 \<le> s \<and> s \<le> 1" by simp
  from detect_injection_flags_phrase [OF o p s c] s show ?thesis by blast
qed

text \<open>
  C3, as stated, fails on the reason strings: the two negative verdicts carry the reasons
  \<open>No readable text detected in image.\<close> and \<open>No threat phrases detected.\<close>, not the
  strings of the claim.
\<close>

theorem negative_reason_counterexample:
  "detect_injection (stub_env (PList []) [] []) (ImagePath ''blank.png'')
     = Inr \<lparr>is_threat = False, risk_score = 0,
            reason = ''No readable text detected in image.''\<rparr>
   \<and> detect_injection (stub_env (PList []) [] []) (ImagePath ''blank.png'')
     \<noteq> Inr \<lparr>is_threat = False, risk_score = 0, reason = ''no readable text detected''\<rparr>
   \<and> detect_injection (stub_env (PList [PList [ocr_line ''Hello'' 0.9]]) [] [])
       (ImagePath ''hello.png'')
     = Inr \<lparr>is_threat = False, risk_score = 0, reason = ''No threat phrases detected.''\<rparr>
   \<and> detect_injection (stub_env (PList [PList [ocr_line ''Hello'' 0.9]]) [] [])
       (ImagePath ''hello.png'')
     \<noteq> Inr \<lparr>is_threat = False, risk_score = 0, reason = ''no threat phrases detected''\<rparr>"
proof -
  have a: "detect_injection (stub_env (PList []) [] []) (ImagePath ''blank.png'')
     = Inr \<lparr>is_threat = False, risk_score = 0,
            reason = ''No readable text detected in image.''\<rparr>"
    by code_simp
  have b: "detect_injection (stub_env (PList [PList [ocr_line ''Hello'' 0.9]]) [] [])
       (ImagePath ''hello.png'')
     = Inr \<lparr>is_threat = False, risk_score = 0, reason = ''No threat phrases detected.''\<rparr>"
    by code_simp
  show ?thesis unfolding a b by simp
qed

text \<open>
  C3, amended. When the normalised text is empty the verdict is exactly
  \<open>is_threat = False\<close>, \<open>risk_score = 0\<close>, reason \<open>No readable text detected in image.\<close>;
  when it is non-empty and contains no dictionary phrase the verdict is exactly
  \<open>is_threat = False\<close>, \<open>risk_score = 0\<close>, reason \<open>No threat phrases detected.\<close>; the two
  reasons are distinct.
\<close>

theorem detect_injection_negative_verdicts:
  assumes "ocr_text env img = Inr (raw_text, scored)"
  shows "(normalize_text raw_text = [] \<longrightarrow>
            detect_injection env img
              = Inr \<lparr>is_threat = False, risk_score = 0,
                     reason = ''No readable text detected in image.''\<rparr>)
       \<and> (normalize_text raw_text \<noteq> [] \<and>
          (\<forall>phrase \<in> set THREAT_DICTIONARY. \<not> sublist phrase (normalize_text raw_text)) \<longrightarrow>
            detect_injection env img
              = Inr \<lparr>is_threat = False, risk_score = 0,
                     reason = ''No threat phrases detected.''\<rparr>)
       \<and> ''No readable text detected in image.'' \<noteq> ''No threat phrases detected.''"
proof (intro conjI impI)
  assume "normalize_text raw_text = []"
  then show "detect_injection env img
      = Inr \<lparr>is_threat = False, risk_score = 0,
             reason = ''No readable text detected in image.''\<rparr>"
    by (simp add: detect_injection_ocr [OF assms] assess_text_def)
next
  assume a: "normalize_text raw_text \<noteq> [] \<and>
    (\<forall>phrase \<in> set THREAT_DICTIONARY. \<not> sublist phrase (normalize_text raw_text))"
  then have "set (matched_phrases (normalize_text raw_text)) = {}"
    unfolding matched_set by blast
  with a show "detect_injection env img
      = Inr \<lparr>is_threat = False, risk_score = 0, reason = ''No threat phrases detected.''\<rparr>"
    by (simp add: detect_injection_ocr [OF assms] assess_text_def)
next
  show "''No readable text detected in image.'' \<noteq> ''No threat phrases detected.''"
    by simp
qed

theorem detect_injection_negative_verdicts_witness:
  "detect_injection (stub_env (PList [PList [ocr_line ''?!'' 0.9]]) [] []) (ImageBytes [])
     = Inr \<lparr>is_threat = False, risk_score = 0,
            reason = ''No readable text detected in image.''\<rparr>
   \<and> detect_injection (stub_env (PList [PList [ocr_line ''Exit'' 0.9]]) [] []) (ImageBytes [])
     = Inr \<lparr>is_threat = False, risk_score = 0, reason = ''No threat phrases detected.''\<rparr>"
proof -
  have o1: "ocr_text (stub_env (PList [PList [ocr_line ''?!'' 0.9]]) [] []) (ImageBytes [])
      = Inr (''?!'', [(''?!'', 0.9)])"
    by code_simp
  have n1: "normalize_text ''?!'' = []" by code_simp
  have o2: "ocr_text (stub_env (PList [PList [ocr_line ''Exit'' 0.9]]) [] []) (ImageBytes [])
      = Inr (''Exit'', [(''Exit'', 0.9)])"
    by code_simp
  have n2: "normalize_text ''Exit'' = ''exit''" by code_simp
  have m2: "matched_phrases ''exit'' = []" by code_simp
  have no: "\<forall>phrase \<in> set THREAT_DICTIONARY. \<not> sublist phrase (normalize_text ''Exit'')"
    using matched_set [of "''exit''"] m2 unfolding n2 by simp
  from detect_injection_negative_verdicts [OF o1] n1
       detect_injection_negative_verdicts [OF o2] n2 no
  show ?thesis by simp
qed

section \<open>Claims about cross-modal consistency\<close>

text \<open>
  C4. With an empty transcript, whatever the image and whatever the loader and the embedding
  model would do, the call returns \<open>is_mismatch = True\<close>, \<open>consistency_score = 0\<close> and
  makes no call to the loader or to the model.
\<close>

theorem check_cross_modal_empty_transcript:
  "check_cross_modal env img [] = ([], Inr \<lparr>is_mismatch = True, consistency_score = 0\<rparr>)"
  by (simp add: check_cross_modal_def)




section \<open>Claims about the OCR result decoder\<close>




section \<open>Facts about the order of scores\<close>

lemma risk_nonneg:
  assumes "0 \<le> c"
  shows "0 \<le> py_round (min 1 (0.6 + 0.1 * real n + 0.2 * c)) 3"
proof -
  have "(0::real) \<le> min 1 (0.6 + 0.1 * real n + 0.2 * c)" using assms by simp
  then have "py_round 0 3 \<le> py_round (min 1 (0.6 + 0.1 * real n + 0.2 * c)) 3"
    by (rule py_round_mono)
  moreover have "py_round 0 3 = 0" by (simp add: py_round_def round_half_even_def)
  ultimately show ?thesis by simp
qed

lemma assess_mono:
  assumes "length (matched_phrases (normalize_text raw_text))
             \<le> length (matched_phrases (normalize_text raw_text'))"
    and "avg_conf scored \<le> avg_conf scored'"
    and "matched_phrases (normalize_text raw_text) \<noteq> [] \<or> 0 \<le> avg_conf scored'"
  shows "risk_score (assess_text raw_text scored) \<le> risk_score (assess_text raw_text' scored')"
proof (cases "matched_phrases (normalize_text raw_text) = []")
  case True
  note none = this
  show ?thesis
  proof (cases "matched_phrases (normalize_text raw_text') = []")
    case True
    with none show ?thesis by (simp add: assess_no_threat(2))
  next
    case False
    from none assms(3) have "0 \<le> avg_conf scored'" by simp
    then show ?thesis
      unfolding assess_no_threat(2) [OF none] assess_threat(2) [OF False] by (rule risk_nonneg)
  qed
next
  case False
  with assms(1) have ne': "matched_phrases (normalize_text raw_text') \<noteq> []" by auto
  show ?thesis
    unfolding assess_threat(2) [OF False] assess_threat(2) [OF ne']
    using assms(1,2) by (rule risk_mono)
qed

section \<open>Claims about monotonicity and rounding\<close>

text \<open>
  C9, as stated, fails: from a call that matches no phrase (score 0) to a call that matches
  one phrase with a negative average confidence the score falls, here from 0 to \<open>-0.3\<close>,
  although the number of matched phrases and the average confidence both went up.
\<close>

theorem risk_score_monotone_counterexample:
  "ocr_text (stub_env (PList [PList [ocr_line ''hello'' (- 10)]]) [] []) (ImagePath ''a.png'')
     = Inr (''hello'', [(''hello'', - 10)])
   \<and> ocr_text (stub_env (PList [PList [ocr_line ''system override'' (- 5)]]) [] [])
       (ImagePath ''b.png'')
     = Inr (''system override'', [(''system override'', - 5)])
   \<and> length (matched_phrases (normalize_text ''hello''))
       \<le> length (matched_phrases (normalize_text ''system override''))
   \<and> avg_conf [(''hello'', - 10)] \<le> avg_conf [(''system override'', - 5)]
   \<and> detect_injection (stub_env (PList [PList [ocr_line ''hello'' (- 10)]]) [] [])
       (ImagePath ''a.png'')
     = Inr \<lparr>is_threat = False, risk_score = 0, reason = ''No threat phrases detected.''\<rparr>
   \<and> detect_injection (stub_env (PList [PList [ocr_line ''system override'' (- 5)]]) [] [])
       (ImagePath ''b.png'')
     = Inr \<lparr>is_threat = True, risk_score = - 0.3,
            reason = ''Matched threat phrases: system override.''\<rparr>
   \<and> \<not> (0 :: real) \<le> - 0.3"
proof (intro conjI)
  show "avg_conf [(''hello'', - 10)] \<le> avg_conf [(''system override'', - 5)]"
    by (simp add: avg_conf_def np_mean_def)
  show "\<not> (0 :: real) \<le> - 0.3" by simp
qed code_simp+

text \<open>
  C9, amended. Between two detection calls, if the second matches at least as many distinct
  phrases and has at least the average confidence of the first, and either the first
  matches at least one phrase or the second's average confidence is not negative, then the
  \<open>risk_score\<close> of the second is at least that of the first; and no \<open>risk_score\<close> exceeds 1.
\<close>

theorem risk_score_monotone:
  assumes "ocr_text env img = Inr (raw_text, scored)"
    and "ocr_text env' img' = Inr (raw_text', scored')"
    and "card {p \<in> set THREAT_DICTIONARY. sublist p (normalize_text raw_text)}
           \<le> card {p \<in> set THREAT_DICTIONARY. sublist p (normalize_text raw_text')}"
    and "avg_conf scored \<le> avg_conf scored'"
    and "{p \<in> set THREAT_DICTIONARY. sublist p (normalize_text raw_text)} \<noteq> {}
           \<or> 0 \<le> avg_conf scored'"
  shows "\<exists>v v'. detect_injection env img = Inr v \<and> detect_injection env' img' = Inr v'
           \<and> risk_score v \<le> risk_score v' \<and> risk_score v \<le> 1 \<and> risk_score v' \<le> 1"
proof -
  have "matched_phrases (normalize_text raw_text) \<noteq> [] \<or> 0 \<le> avg_conf scored'"
    using assms(5) matched_set [of "normalize_text raw_text"] by auto
  then have "risk_score (assess_text raw_text scored)
      \<le> risk_score (assess_text raw_text' scored')"
    using assms(3,4) by (intro assess_mono) (simp_all add: matched_length)
  then show ?thesis
    by (simp add: detect_injection_ocr [OF assms(1)] detect_injection_ocr [OF assms(2)]
        assess_le_1)
qed

theorem risk_score_monotone_witness:
  "\<exists>v v'. detect_injection (stub_env (PList [PList [ocr_line ''Reveal secrets'' 0.5]]) [] [])
             (ImagePath ''a.png'') = Inr v
         \<and> detect_injection
             (stub_env (PList [PList [ocr_line ''reveal secrets'' 0.8,
                                      ocr_line ''t r a n s f e r funds'' 1]]) [] [])
             (ImagePath ''b.png'') = Inr v'
         \<and> risk_score v \<le> risk_score v' \<and> risk_score v \<le> 1 \<and> risk_score v' \<le> 1"
proof -
  let ?e = "stub_env (PList [PList [ocr_line ''Reveal secrets'' 0.5]]) [] []"
  let ?e' = "stub_env (PList [PList [ocr_line ''reveal secrets'' 0.8,
                                      ocr_line ''t r a n s f e r funds'' 1]]) [] []"
  let ?raw' = "''reveal secrets t r a n s f e r funds''"
  have o: "ocr_text ?e (ImagePath ''a.png'') = Inr (''Reveal secrets'', [(''Reveal secrets'', 0.5)])"
    by code_simp
  have o': "ocr_text ?e' (ImagePath ''b.png'')
      = Inr (?raw', [(''reveal secrets'', 0.8), (''t r a n s f e r funds'', 1)])"
    by code_simp
  have m: "matched_phrases (normalize_text ''Reveal secrets'') = [''reveal secrets'']"
    by code_simp
  have m': "matched_phrases (normalize_text ?raw') = [''transfer funds'', ''reveal secrets'']"
    by code_simp
  have c: "card {p \<in> set THREAT_DICTIONARY. sublist p (normalize_text ''Reveal secrets'')} = 1"
    using matched_length [of "normalize_text ''Reveal secrets''"] m by simp
  have c': "card {p \<in> set THREAT_DICTIONARY. sublist p (normalize_text ?raw')} = 2"
    using matched_length [of "normalize_text ?raw'"] m' by simp
  have ne: "{p \<in> set THREAT_DICTIONARY. sublist p (normalize_text ''Reveal secrets'')} \<noteq> {}"
    using matched_set [of "normalize_text ''Reveal secrets''"] m by auto
  have a: "avg_conf [(''Reveal secrets'', 0.5)]
      \<le> avg_conf [(''reveal secrets'', 0.8), (''t r a n s f e r funds'', 1)]"
    by (simp add: avg_conf_def np_mean_def)
  show ?thesis
    by (rule risk_score_monotone [OF o o' _ a disjI1 [OF ne]]) (simp add: c c')
qed



end
